theory Spec2Isabelle
  imports Main
begin

section \<open>The scan page of src/app/scan/page.tsx\<close>

text \<open>
  The page is a React function component. Its \<open>useState\<close> cells, its \<open>useRef\<close> cells,
  the pending \<open>setTimeout\<close> callbacks and the \<open>console.error\<close> log are the fields of
  one record; every function of the component becomes a function from the record to the
  updated record. Callbacks that the source registers for later (a timeout, the detector's
  result callback, a button's \<open>onClick\<close>) are events of the environment.
\<close>

subsection \<open>Data\<close>

text \<open>\<open>type ScanStep = 'idle' | 'left-hand' | 'right-hand' | 'scanning' | 'complete'\<close>\<close>

datatype ScanStep = Idle | LeftHand | RightHand | Scanning | Complete

text \<open>The object \<open>{ left: boolean, right: boolean }\<close> held by \<open>handsDetected\<close>.\<close>

record HandsDetected =
  left :: bool
  right :: bool

text \<open>
  A media stream returned by \<open>getUserMedia\<close> is named by its number in the order of
  acquisition; a variable of type \<open>MediaStream | null\<close> is a \<open>nat option\<close>.
\<close>

type_synonym mediaStream = nat

text \<open>
  The three functions the source hands to \<open>setTimeout\<close>. Every render of the component
  creates its functions anew, and a function sees the state variables of the render that
  created it. \<open>requestCameraPermission\<close> schedules the \<open>initializeHandDetection\<close> of its
  own render; the detector callback registered there calls the \<open>handleScanSuccess\<close> of
  that render, which calls its \<open>stopCamera\<close>, which reads its \<open>stream\<close>. So the first two
  callbacks carry the \<open>stream\<close> that their render saw. What else these functions read
  of the state comes through refs and updater functions, which are current.
\<close>

datatype callback =
    CallHandleScanSuccess "mediaStream option"
  | CallInitializeHandDetection "mediaStream option"
  | CallSetShowVideo

fun isHandleScanSuccess :: "callback \<Rightarrow> bool" where
  "isHandleScanSuccess (CallHandleScanSuccess c) = True"
| "isHandleScanSuccess (CallInitializeHandDetection c) = False"
| "isHandleScanSuccess CallSetShowVideo = False"

text \<open>
  State cells (\<open>useState\<close>): \<open>step\<close>, \<open>stream\<close>, \<open>error\<close>, \<open>scanning\<close>, \<open>handsDetected\<close>,
  \<open>showVideo\<close>, \<open>detectionCount\<close>, \<open>mediapipeLoaded\<close>. \<open>detectionCount\<close> starts at 0 and
  is only ever set to 0 or to its successor, so it is a \<open>nat\<close>.

  Refs (\<open>useRef\<close>): \<open>stepRef\<close>, \<open>scanningRef\<close>, \<open>handsDetectedRef\<close>, \<open>handsRef\<close>,
  \<open>animationFrameRef\<close>, \<open>drawingUtilsRef\<close>. A ref to an object that is never inspected
  (the detector, the handle of the requested frame, the drawing utilities) is a \<open>bool\<close>:
  \<open>True\<close> when it is not null.

  The environment: \<open>videoSrcObject\<close> (the \<open>srcObject\<close> of the video element),
  \<open>liveTracks\<close> (the acquired media streams whose tracks have not been stopped),
  \<open>acquired\<close> (how many streams \<open>getUserMedia\<close> has returned), \<open>handlerStream\<close> (the
  \<open>stream\<close> seen by the closure of the registered detector callback), \<open>effectStream\<close>
  (the \<open>stream\<close> seen by the cleanup of the effect that depends on it), \<open>timeouts\<close>
  (pending \<open>setTimeout\<close> callbacks with their delays in milliseconds, oldest first) and
  \<open>console\<close> (the messages passed to \<open>console.error\<close>).
\<close>

record scan_page =
  step :: ScanStep
  stream :: "mediaStream option"
  error :: string
  scanning :: bool
  handsDetected :: HandsDetected
  showVideo :: bool
  detectionCount :: nat
  mediapipeLoaded :: bool
  stepRef :: ScanStep
  scanningRef :: bool
  handsDetectedRef :: HandsDetected
  handsRef :: bool
  animationFrameRef :: bool
  drawingUtilsRef :: bool
  videoSrcObject :: "mediaStream option"
  liveTracks :: "mediaStream list"
  acquired :: nat
  handlerStream :: "mediaStream option"
  effectStream :: "mediaStream option"
  timeouts :: "(nat \<times> callback) list"
  console :: "string list"

text \<open>\<open>const detectionThreshold = 30; // Number of consecutive detections needed\<close>\<close>

definition detectionThreshold :: nat where
  "detectionThreshold = 30"

text \<open>The values of the \<open>useState\<close> and \<open>useRef\<close> initialisers.\<close>

definition initial :: scan_page where
  "initial =
     \<lparr>step = Idle, stream = None, error = '''', scanning = False,
      handsDetected = \<lparr>left = False, right = False\<rparr>, showVideo = False,
      detectionCount = 0, mediapipeLoaded = False,
      stepRef = Idle, scanningRef = False,
      handsDetectedRef = \<lparr>left = False, right = False\<rparr>,
      handsRef = False, animationFrameRef = False, drawingUtilsRef = False,
      videoSrcObject = None, liveTracks = [], acquired = 0, handlerStream = None,
      effectStream = None, timeouts = [], console = []\<rparr>"

text \<open>
  The JSX attaches \<open>videoRef\<close> and \<open>canvasRef\<close> to elements that are rendered in the
  \<open>!showVideo\<close> branch only, so \<open>videoRef.current\<close> and \<open>canvasRef.current\<close> are non-null
  exactly when \<open>showVideo\<close> is false.
\<close>

definition videoRef :: "scan_page \<Rightarrow> bool" where
  "videoRef s = (\<not> showVideo s)"

definition canvasRef :: "scan_page \<Rightarrow> bool" where
  "canvasRef s = (\<not> showVideo s)"

definition setTimeout :: "callback \<Rightarrow> nat \<Rightarrow> scan_page \<Rightarrow> scan_page" where
  "setTimeout cb delay s = s\<lparr>timeouts := timeouts s @ [(delay, cb)]\<rparr>"

subsection \<open>The functions of the component\<close>

text \<open>
  The three \<open>useEffect\<close> hooks under "Keep refs in sync with state": after a commit each
  ref holds the value of its state cell.
\<close>

definition syncRefs :: "scan_page \<Rightarrow> scan_page" where
  "syncRefs s = s\<lparr>stepRef := step s, scanningRef := scanning s,
                   handsDetectedRef := handsDetected s\<rparr>"

text \<open>
  The effect with the dependency \<open>[stream]\<close> only returns a cleanup. When a commit has
  changed \<open>stream\<close>, the cleanup of the previous commit runs, in the closure that saw the
  previous \<open>stream\<close>: it stops the tracks of that stream. It also cancels the requested
  frame and closes the detector without clearing their refs; what a cancelled request or
  a closed detector delivers afterwards is among the events of the environment.
\<close>

definition streamEffect :: "scan_page \<Rightarrow> scan_page" where
  "streamEffect s =
     (if stream s = effectStream s then s
      else
        let s1 = (case effectStream s of
                    None \<Rightarrow> s
                  | Some m \<Rightarrow> s\<lparr>liveTracks := removeAll m (liveTracks s)\<rparr>)
        in s1\<lparr>effectStream := stream s\<rparr>)"

text \<open>
  The effect that loads the detection library: on success it fills \<open>drawingUtilsRef\<close> and
  sets \<open>mediapipeLoaded\<close>, on failure it logs and sets the error message.
\<close>

definition loadMediapipe :: "bool \<Rightarrow> scan_page \<Rightarrow> scan_page" where
  "loadMediapipe ok s =
     (if ok then s\<lparr>drawingUtilsRef := True, mediapipeLoaded := True\<rparr>
      else s\<lparr>console := console s @ [''Error loading MediaPipe:''],
             error := ''Failed to load hand detection library. Please refresh the page.''\<rparr>)"

text \<open>
  \<open>stopCamera\<close> reads the variable \<open>stream\<close> of the render in which the calling closure
  was created: the first argument is that variable. The three refs are read when the
  function runs.
\<close>

definition stopCamera :: "mediaStream option \<Rightarrow> scan_page \<Rightarrow> scan_page" where
  "stopCamera closureStream s =
     (let s1 = (case closureStream of
                  None \<Rightarrow> s
                | Some m \<Rightarrow> s\<lparr>liveTracks := removeAll m (liveTracks s), stream := None\<rparr>);
          s2 = (if animationFrameRef s1 then s1\<lparr>animationFrameRef := False\<rparr> else s1);
          s3 = (if handsRef s2 then s2\<lparr>handsRef := False\<rparr> else s2)
      in if videoRef s3 then s3\<lparr>videoSrcObject := None\<rparr> else s3)"

text \<open>
  \<open>handleScanSuccess\<close> reads \<open>handsDetectedRef.current\<close>, clears \<open>scanning\<close> and the
  count, and confirms the left hand, or else the right hand, or else nothing. The updater
  \<open>prev => ({ ...prev, left: true })\<close> is applied to the state cell. The argument is the
  \<open>stream\<close> seen by the closure, which \<open>stopCamera\<close> reads.
\<close>

definition handleScanSuccess :: "mediaStream option \<Rightarrow> scan_page \<Rightarrow> scan_page" where
  "handleScanSuccess closureStream s =
     (let currentHandsDetected = handsDetectedRef s;
          s1 = s\<lparr>scanning := False, detectionCount := 0\<rparr>
      in if \<not> left currentHandsDetected then
           s1\<lparr>handsDetected := (handsDetected s1)\<lparr>left := True\<rparr>, step := RightHand\<rparr>
         else if \<not> right currentHandsDetected then
           setTimeout CallSetShowVideo 1000
             (stopCamera closureStream
                (s1\<lparr>handsDetected := (handsDetected s1)\<lparr>right := True\<rparr>, step := Complete\<rparr>))
         else s1)"

text \<open>
  The callback given to \<open>hands.onResults\<close>. Its argument is
  \<open>results.multiHandLandmarks\<close>: \<open>None\<close> when the field is absent, \<open>Some n\<close> for a list
  of \<open>n\<close> landmark sets. The guard of the callback tests \<open>canvasRef.current\<close>,
  \<open>canvasCtx\<close> (a constant of the closure, non-null once the callback is registered)
  and \<open>drawingUtilsRef.current\<close>. The drawing on the canvas is left out. The updater
  given to \<open>setDetectionCount\<close> is applied once to the state cell; its
  \<open>setTimeout(() => handleScanSuccess(), 0)\<close> joins the pending timeouts, with the
  \<open>stream\<close> that the closure of the callback sees.
\<close>

definition handsFound :: "nat option \<Rightarrow> bool" where
  "handsFound multiHandLandmarks =
     (case multiHandLandmarks of None \<Rightarrow> False | Some n \<Rightarrow> n > 0)"

definition onResults :: "nat option \<Rightarrow> scan_page \<Rightarrow> scan_page" where
  "onResults multiHandLandmarks s =
     (if \<not> canvasRef s \<or> \<not> drawingUtilsRef s then s
      else
        let currentStep = stepRef s in
        if handsFound multiHandLandmarks then
          (if currentStep = LeftHand \<or> currentStep = RightHand then
             (let newCount = detectionCount s + 1 in
              if newCount \<ge> detectionThreshold then
                (setTimeout (CallHandleScanSuccess (handlerStream s)) 0 s)\<lparr>detectionCount := 0\<rparr>
              else s\<lparr>detectionCount := newCount\<rparr>)
           else s)
        else
          (if currentStep = LeftHand \<or> currentStep = RightHand then
             s\<lparr>detectionCount := 0\<rparr>
           else s))"

text \<open>
  One turn of \<open>captureFrame\<close>. The frame carries what the environment decides: the
  \<open>readyState\<close> of the video element, and whether \<open>hands.send\<close> rejects or delivers its
  results to the callback before it resolves. A rejection is caught and logged. Either
  way the next turn is requested.
\<close>

datatype analysis = SendRejected | Results "nat option"

record frame =
  readyState :: nat
  outcome :: analysis

definition captureFrame :: "frame \<Rightarrow> scan_page \<Rightarrow> scan_page" where
  "captureFrame f s =
     (let s1 = (if videoRef s \<and> handsRef s \<and> readyState f \<ge> 2 then
                  (case outcome f of
                     SendRejected \<Rightarrow> s\<lparr>console := console s @ [''Error sending frame to hands:'']\<rparr>
                   | Results r \<Rightarrow> onResults r s)
                else s)
      in s1\<lparr>animationFrameRef := True\<rparr>)"

text \<open>
  \<open>initializeHandDetection\<close>: after its guard it closes an existing detector, cancels a
  requested frame, creates the detector and registers \<open>onResults\<close>, whose closure is
  the one of this call (the argument is its \<open>stream\<close>). The 2D context of the canvas is
  taken to exist. The guard reads the \<open>mediapipeLoaded\<close> of the closure, which was true
  when \<open>requestCameraPermission\<close> let the call be scheduled and is never set back to
  false, so it is the value of the state cell. The turns of \<open>captureFrame\<close> that the
  function starts are the frames the environment delivers.
\<close>

definition initializeHandDetection :: "mediaStream option \<Rightarrow> scan_page \<Rightarrow> scan_page" where
  "initializeHandDetection closureStream s =
     (if \<not> videoRef s \<or> \<not> canvasRef s \<or> \<not> mediapipeLoaded s \<or> \<not> drawingUtilsRef s then s
      else
        let s1 = (if animationFrameRef s then s\<lparr>animationFrameRef := False\<rparr> else s)
        in s1\<lparr>handsRef := True, handlerStream := closureStream\<rparr>)"

text \<open>
  \<open>requestCameraPermission\<close>, the \<open>onClick\<close> of the rendered button, so a function of
  the current render. The environment decides whether \<open>getUserMedia\<close> resolves and
  whether \<open>video.play()\<close> resolves; both rejections land in the same \<open>catch\<close>. The
  \<open>initializeHandDetection\<close> that it schedules is the one of its own render, which sees
  the \<open>stream\<close> from before the call.
\<close>

datatype camera = Granted | Denied | PlayRejected

definition requestCameraPermission :: "camera \<Rightarrow> scan_page \<Rightarrow> scan_page" where
  "requestCameraPermission cam s =
     (let s0 = s\<lparr>error := ''''\<rparr> in
      if \<not> mediapipeLoaded s0 then
        s0\<lparr>error := ''Please wait, loading hand detection library...''\<rparr>
      else if cam = Denied then
        s0\<lparr>error := ''Camera permission denied. Please allow camera access to continue.'',
           console := console s0 @ [''Error accessing camera:'']\<rparr>
      else
        let mediaStream = acquired s0;
            s1 = s0\<lparr>acquired := Suc mediaStream,
                    liveTracks := liveTracks s0 @ [mediaStream],
                    stream := Some mediaStream\<rparr> in
        if videoRef s1 then
          (let s2 = s1\<lparr>videoSrcObject := Some mediaStream\<rparr> in
           if cam = PlayRejected then
             s2\<lparr>error := ''Camera permission denied. Please allow camera access to continue.'',
                console := console s2 @ [''Error accessing camera:'']\<rparr>
           else
             (setTimeout (CallInitializeHandDetection (stream s)) 500 s2)
               \<lparr>step := LeftHand, scanning := True\<rparr>)
        else s1\<lparr>step := LeftHand, scanning := True\<rparr>)"

text \<open>\<open>resetScan\<close> runs in the closure of the current render, so it sees the current \<open>stream\<close>.\<close>

definition resetScan :: "scan_page \<Rightarrow> scan_page" where
  "resetScan s =
     (stopCamera (stream s) s)
       \<lparr>step := Idle, handsDetected := \<lparr>left = False, right = False\<rparr>,
        showVideo := False, scanning := False, detectionCount := 0\<rparr>"

subsection \<open>Events\<close>

text \<open>A pending timeout runs its callback.\<close>

definition runCallback :: "callback \<Rightarrow> scan_page \<Rightarrow> scan_page" where
  "runCallback cb s =
     (case cb of
        CallHandleScanSuccess closureStream \<Rightarrow> handleScanSuccess closureStream s
      | CallInitializeHandDetection closureStream \<Rightarrow> initializeHandDetection closureStream s
      | CallSetShowVideo \<Rightarrow> s\<lparr>showVideo := True\<rparr>)"

fun runCallbacks :: "callback list \<Rightarrow> scan_page \<Rightarrow> scan_page" where
  "runCallbacks [] s = s"
| "runCallbacks (cb # cbs) s = runCallbacks cbs (runCallback cb s)"

text \<open>
  Between two events the page settles: the timeouts of delay 0 run, React commits and
  the effects run (the refs take the values of the state cells, and the cleanup for a
  changed \<open>stream\<close>). This is the order in which the source expects its callbacks to run
  (a frame is requested only after the previous one was analysed, and the refs are
  "always up-to-date"). Leaving the page (the navigation that follows "Back to Home",
  and the unmounting of the component) is not an event: the page is followed as long as
  it is mounted. Nothing in the source enforces the settling: \<open>perform\<close> below takes
  the calls one by one.
\<close>

definition settle :: "scan_page \<Rightarrow> scan_page" where
  "settle s =
     streamEffect
       (syncRefs
          (runCallbacks
             (map snd (filter (\<lambda>t. fst t = 0) (timeouts s)))
             (s\<lparr>timeouts := filter (\<lambda>t. fst t \<noteq> 0) (timeouts s)\<rparr>)))"

text \<open>
  The events: the library load finishes; a click on "Scan Hand" (rendered when
  \<open>step === 'idle'\<close>), on "Reset" (rendered in the two hand steps) or on "Back to Home"
  (which resets when the video is shown after completion, and stops the camera in the
  steps other than idle and complete); the \<open>k\<close>-th pending timeout fires; a turn of
  \<open>captureFrame\<close>; the detector delivers results to its callback.
\<close>

datatype event =
    MediapipeLoad bool
  | ClickScanHand camera
  | ClickReset
  | ClickBackHome
  | Timeout nat
  | Frame frame
  | Observation "nat option"

definition fireTimeout :: "nat \<Rightarrow> scan_page \<Rightarrow> scan_page" where
  "fireTimeout k s =
     (if k < length (timeouts s) then
        runCallback (snd (timeouts s ! k))
          (s\<lparr>timeouts := take k (timeouts s) @ drop (Suc k) (timeouts s)\<rparr>)
      else s)"

definition dispatch :: "event \<Rightarrow> scan_page \<Rightarrow> scan_page" where
  "dispatch e s =
     (case e of
        MediapipeLoad ok \<Rightarrow> loadMediapipe ok s
      | ClickScanHand cam \<Rightarrow> (if step s = Idle then requestCameraPermission cam s else s)
      | ClickReset \<Rightarrow> (if step s = LeftHand \<or> step s = RightHand then resetScan s else s)
      | ClickBackHome \<Rightarrow>
          (if step s = Complete \<and> showVideo s then resetScan s
           else if step s \<noteq> Idle \<and> step s \<noteq> Complete then stopCamera (stream s) s
           else s)
      | Timeout k \<Rightarrow> fireTimeout k s
      | Frame f \<Rightarrow> captureFrame f s
      | Observation r \<Rightarrow> onResults r s)"

definition react :: "event \<Rightarrow> scan_page \<Rightarrow> scan_page" where
  "react e s = settle (dispatch e s)"

fun run :: "event list \<Rightarrow> scan_page \<Rightarrow> scan_page" where
  "run [] s = s"
| "run (e # es) s = run es (react e s)"

text \<open>
  The four entities of the debounce state machine: the step, the tally and the two
  confirmations.
\<close>

definition entities :: "scan_page \<Rightarrow> ScanStep \<times> nat \<times> bool \<times> bool" where
  "entities s = (step s, detectionCount s, left (handsDetected s), right (handsDetected s))"

text \<open>
  A settled page: the refs mirror the state cells, the cleanup in place has seen the
  current \<open>stream\<close>, and no timeout of delay 0 is pending.
\<close>

definition settled :: "scan_page \<Rightarrow> bool" where
  "settled s =
     (stepRef s = step s \<and> scanningRef s = scanning s \<and>
      handsDetectedRef s = handsDetected s \<and> effectStream s = stream s \<and>
      list_all (\<lambda>t. fst t \<noteq> 0) (timeouts s))"

text \<open>
  What the functions of the component keep true between events. No timeout of delay 0
  and no call of \<open>handleScanSuccess\<close> is pending; the drawing utilities are there once
  the library has loaded, and the step leaves idle only then; outside the complete step
  the video is not shown and no reveal is pending; in the complete step at most one
  reveal is pending, and none once the video is shown. An orderly page is tidy and
  settled.
\<close>

definition tidy :: "scan_page \<Rightarrow> bool" where
  "tidy s =
     (list_all (\<lambda>t. fst t \<noteq> 0) (timeouts s) \<and>
      list_all (\<lambda>t. \<not> isHandleScanSuccess (snd t)) (timeouts s) \<and>
      (mediapipeLoaded s \<longrightarrow> drawingUtilsRef s) \<and>
      (step s \<noteq> Idle \<longrightarrow> drawingUtilsRef s) \<and>
      (step s \<noteq> Complete \<longrightarrow>
         \<not> showVideo s \<and> filter (\<lambda>t. snd t = CallSetShowVideo) (timeouts s) = []) \<and>
      (step s = Complete \<longrightarrow>
         length (filter (\<lambda>t. snd t = CallSetShowVideo) (timeouts s))
           \<le> (if showVideo s then 0 else 1)))"

definition orderly :: "scan_page \<Rightarrow> bool" where
  "orderly s =
     (tidy s \<and> stepRef s = step s \<and> scanningRef s = scanning s \<and>
      handsDetectedRef s = handsDetected s \<and> effectStream s = stream s)"

text \<open>
  The calls one by one, with nothing in between: a function of the component is called,
  a pending timeout (of any delay) fires, the detector delivers results, or the effects
  of a commit run. A result can so arrive after \<open>handleScanSuccess\<close> has set the step
  and before the effects have copied it into \<open>stepRef\<close>. The clicks are not tied to
  what is rendered, and \<open>stopCamera\<close> (the "Back to Home" of the hand steps) takes any
  \<open>stream\<close> for its closure.
\<close>

datatype call =
    LoadMediapipe bool
  | RequestCameraPermission camera
  | ResetScan
  | StopCamera "mediaStream option"
  | FireTimeout nat
  | CaptureFrame frame
  | OnResults "nat option"
  | RunEffects

definition perform :: "call \<Rightarrow> scan_page \<Rightarrow> scan_page" where
  "perform c s =
     (case c of
        LoadMediapipe ok \<Rightarrow> loadMediapipe ok s
      | RequestCameraPermission cam \<Rightarrow> requestCameraPermission cam s
      | ResetScan \<Rightarrow> resetScan s
      | StopCamera closureStream \<Rightarrow> stopCamera closureStream s
      | FireTimeout k \<Rightarrow> fireTimeout k s
      | CaptureFrame f \<Rightarrow> captureFrame f s
      | OnResults r \<Rightarrow> onResults r s
      | RunEffects \<Rightarrow> streamEffect (syncRefs s))"

fun performAll :: "call list \<Rightarrow> scan_page \<Rightarrow> scan_page" where
  "performAll [] s = s"
| "performAll (c # cs) s = performAll cs (perform c s)"

subsection \<open>Sample sessions\<close>

text \<open>
  A frame in which the detector finds one hand, and a frame whose analysis is rejected.
  A session starts when the library has loaded, the user clicks "Scan Hand", the camera
  is granted and the timeout that initialises the detector has fired.
\<close>

definition handFrame :: frame where
  "handFrame = \<lparr>readyState = 4, outcome = Results (Some 1)\<rparr>"

definition rejectedFrame :: frame where
  "rejectedFrame = \<lparr>readyState = 4, outcome = SendRejected\<rparr>"

definition sessionStart :: "event list" where
  "sessionStart = [MediapipeLoad True, ClickScanHand Granted, Timeout 0]"

definition awaitingLeft :: scan_page where
  "awaitingLeft = run sessionStart initial"

definition midTally :: scan_page where
  "midTally = run (replicate 15 (Frame handFrame)) awaitingLeft"

definition awaitingRight :: scan_page where
  "awaitingRight = run (replicate 30 (Frame handFrame)) awaitingLeft"

definition finished :: scan_page where
  "finished = run (replicate 30 (Frame handFrame)) awaitingRight"

text \<open>
  The same sessions call by call. \<open>almostComplete\<close> is the right-hand step at tally 29.
  In \<open>justCompleted\<close> the thirtieth frame has been analysed and the timeout of delay 0
  has run \<open>handleScanSuccess\<close>, but the effects of the commit have not run yet; once
  they have, the page is \<open>finished\<close>.
\<close>

definition callsToLeft :: "call list" where
  "callsToLeft =
     [LoadMediapipe True, RequestCameraPermission Granted, RunEffects, FireTimeout 0]"

definition almostComplete :: scan_page where
  "almostComplete = run (replicate 29 (Frame handFrame)) awaitingRight"

definition justCompleted :: scan_page where
  "justCompleted = performAll [CaptureFrame handFrame, FireTimeout 0] almostComplete"

section \<open>Properties\<close>

subsection \<open>Settling\<close>

lemma filter_keeps_all: "list_all P xs \<Longrightarrow> filter P xs = xs"
  by (induction xs) auto

lemma filter_immediate_none:
  "list_all (\<lambda>t. fst t \<noteq> (0::nat)) xs \<Longrightarrow> filter (\<lambda>t. fst t = 0) xs = []"
  by (induction xs) auto

lemma list_all_take: "list_all P xs \<Longrightarrow> list_all P (take k xs)"
  by (auto simp: list_all_iff dest: in_set_takeD)

lemma list_all_drop: "list_all P xs \<Longrightarrow> list_all P (drop k xs)"
  by (auto simp: list_all_iff dest: in_set_dropD)

lemma streamEffect_fields:
  "step (streamEffect s) = step s"
  "detectionCount (streamEffect s) = detectionCount s"
  "handsDetected (streamEffect s) = handsDetected s"
  "scanning (streamEffect s) = scanning s"
  "showVideo (streamEffect s) = showVideo s"
  "mediapipeLoaded (streamEffect s) = mediapipeLoaded s"
  "drawingUtilsRef (streamEffect s) = drawingUtilsRef s"
  "stepRef (streamEffect s) = stepRef s"
  "scanningRef (streamEffect s) = scanningRef s"
  "handsDetectedRef (streamEffect s) = handsDetectedRef s"
  "handsRef (streamEffect s) = handsRef s"
  "animationFrameRef (streamEffect s) = animationFrameRef s"
  "videoSrcObject (streamEffect s) = videoSrcObject s"
  "handlerStream (streamEffect s) = handlerStream s"
  "timeouts (streamEffect s) = timeouts s"
  "stream (streamEffect s) = stream s"
  "effectStream (streamEffect s) = stream s"
  by (simp_all add: streamEffect_def Let_def split: option.splits)

lemma settle_quiet:
  assumes "list_all (\<lambda>t. fst t \<noteq> 0) (timeouts s)"
  shows "settle s = streamEffect (syncRefs s)"
  using assms by (simp add: settle_def filter_immediate_none filter_keeps_all)

lemma settle_settled: "settled s \<Longrightarrow> settle s = s"
  by (simp add: settled_def settle_def filter_immediate_none filter_keeps_all syncRefs_def
      streamEffect_def)

lemma settle_immediate:
  assumes "list_all (\<lambda>t. fst t \<noteq> 0) (timeouts s)"
  shows "settle (setTimeout (CallHandleScanSuccess c) 0 s) =
           streamEffect (syncRefs (handleScanSuccess c s))"
  using assms
  by (simp add: settle_def setTimeout_def filter_immediate_none filter_keeps_all runCallback_def)

lemma timeouts_stopCamera: "timeouts (stopCamera b s) = timeouts s"
  by (simp add: stopCamera_def Let_def split: option.splits)

lemma delayed_runCallback:
  "list_all (\<lambda>t. fst t \<noteq> 0) (timeouts s) \<Longrightarrow>
   list_all (\<lambda>t. fst t \<noteq> 0) (timeouts (runCallback cb s))"
  by (cases cb)
     (simp_all add: runCallback_def handleScanSuccess_def setTimeout_def
        initializeHandDetection_def timeouts_stopCamera Let_def)

lemma delayed_runCallbacks:
  "list_all (\<lambda>t. fst t \<noteq> 0) (timeouts s) \<Longrightarrow>
   list_all (\<lambda>t. fst t \<noteq> 0) (timeouts (runCallbacks cbs s))"
proof (induction cbs arbitrary: s)
  case Nil
  then show ?case by simp
next
  case (Cons cb cbs)
  from Cons.prems have "list_all (\<lambda>t. fst t \<noteq> 0) (timeouts (runCallback cb s))"
    by (rule delayed_runCallback)
  then have "list_all (\<lambda>t. fst t \<noteq> 0)
      (timeouts (runCallbacks cbs (runCallback cb s)))"
    by (rule Cons.IH)
  then show ?case by simp
qed

lemma settled_settle: "settled (settle s)"
proof -
  let ?s0 = "s\<lparr>timeouts := filter (\<lambda>t. fst t \<noteq> 0) (timeouts s)\<rparr>"
  have "list_all (\<lambda>t. fst t \<noteq> 0) (timeouts ?s0)"
    by (simp add: list_all_iff)
  then have "list_all (\<lambda>t. fst t \<noteq> 0)
      (timeouts (runCallbacks (map snd (filter (\<lambda>t. fst t = 0) (timeouts s))) ?s0))"
    by (rule delayed_runCallbacks)
  then show ?thesis
    by (simp add: settled_def settle_def syncRefs_def streamEffect_fields)
qed

lemma settled_initial: "settled initial"
  by (simp add: settled_def initial_def)

lemma settled_run: "settled s \<Longrightarrow> settled (run es s)"
  by (induction es arbitrary: s) (simp_all add: react_def settled_settle)

lemma run_append: "run (es @ fs) s = run fs (run es s)"
  by (induction es arbitrary: s) simp_all

lemma split_last: "length rs = Suc n \<Longrightarrow> \<exists>ys y. rs = ys @ [y] \<and> length ys = n"
  by (metis length_Suc_conv_rev)

subsection \<open>Every reachable page is orderly\<close>

lemma tidy_settle:
  assumes "tidy d"
  shows "orderly (settle d)"
proof -
  have "settle d = streamEffect (syncRefs d)"
    using assms by (intro settle_quiet) (simp add: tidy_def)
  then show ?thesis
    using assms by (simp add: orderly_def tidy_def syncRefs_def streamEffect_fields)
qed

lemma tidy_stopCamera: "tidy s \<Longrightarrow> tidy (stopCamera b s)"
  by (cases b) (simp_all add: tidy_def stopCamera_def Let_def)

lemma tidy_loadMediapipe: "tidy s \<Longrightarrow> tidy (loadMediapipe ok s)"
  by (simp add: tidy_def loadMediapipe_def)

lemma tidy_requestCameraPermission:
  "tidy s \<Longrightarrow> step s = Idle \<Longrightarrow> tidy (requestCameraPermission cam s)"
  by (simp add: tidy_def requestCameraPermission_def Let_def setTimeout_def)

lemma tidy_resetScan:
  assumes "tidy s" "step s \<noteq> Complete \<or> showVideo s"
  shows "tidy (resetScan s)"
proof -
  have "tidy (stopCamera (stream s) s)" using assms(1) by (rule tidy_stopCamera)
  moreover have "timeouts (stopCamera (stream s) s) = timeouts s"
    by (rule timeouts_stopCamera)
  moreover have "filter (\<lambda>t. snd t = CallSetShowVideo) (timeouts s) = []"
    using assms by (auto simp: tidy_def)
  ultimately show ?thesis
    by (simp add: resetScan_def tidy_def)
qed

lemma tidy_initializeHandDetection: "tidy s \<Longrightarrow> tidy (initializeHandDetection c s)"
  by (simp add: tidy_def initializeHandDetection_def Let_def)

lemma filter_remove_nth:
  assumes "k < length xs" "P (xs ! k)"
  shows "Suc (length (filter P (take k xs @ drop (Suc k) xs))) = length (filter P xs)"
proof -
  have "xs = take k xs @ xs ! k # drop (Suc k) xs"
    using assms(1) by (rule id_take_nth_drop)
  then have "filter P xs = filter P (take k xs) @ xs ! k # filter P (drop (Suc k) xs)"
    using assms(2) by (metis filter.simps(2) filter_append)
  then show ?thesis by simp
qed

lemma filter_remove_nth_le:
  "length (filter P (take k xs @ drop (Suc k) xs)) \<le> length (filter P xs)"
proof -
  have "length (filter P (take k xs)) + length (filter P (drop k xs)) = length (filter P xs)"
    by (metis append_take_drop_id filter_append length_append)
  moreover have "length (filter P (drop (Suc k) xs)) \<le> length (filter P (drop k xs))"
  proof (cases "k < length xs")
    case True
    then have "drop k xs = xs ! k # drop (Suc k) xs" by (simp add: Cons_nth_drop_Suc)
    then show ?thesis by simp
  next
    case False
    then show ?thesis by simp
  qed
  ultimately show ?thesis by simp
qed

lemma tidy_fireTimeout:
  assumes "tidy s"
  shows "tidy (fireTimeout k s)"
proof (cases "k < length (timeouts s)")
  case False
  then show ?thesis using assms by (simp add: fireTimeout_def)
next
  case True
  let ?rest = "take k (timeouts s) @ drop (Suc k) (timeouts s)"
  let ?s0 = "s\<lparr>timeouts := ?rest\<rparr>"
  let ?cb = "snd (timeouts s ! k)"
  have mem: "timeouts s ! k \<in> set (timeouts s)"
    using True by simp
  have notH: "\<not> isHandleScanSuccess ?cb"
    using assms mem by (auto simp: tidy_def list_all_iff)
  have d: "list_all (\<lambda>t. fst t \<noteq> 0) ?rest"
    and n: "list_all (\<lambda>t. \<not> isHandleScanSuccess (snd t)) ?rest"
    using assms by (simp_all add: tidy_def list_all_take list_all_drop)
  have le: "length (filter (\<lambda>t. snd t = CallSetShowVideo) ?rest)
              \<le> length (filter (\<lambda>t. snd t = CallSetShowVideo) (timeouts s))"
    by (rule filter_remove_nth_le)
  have t0: "tidy ?s0"
    using assms d n le unfolding tidy_def by (auto simp del: filter_append)
  show ?thesis
  proof (cases ?cb)
    case (CallHandleScanSuccess c)
    then show ?thesis using notH by simp
  next
    case (CallInitializeHandDetection c)
    then show ?thesis
      using True t0 by (simp add: fireTimeout_def runCallback_def tidy_initializeHandDetection)
  next
    case CallSetShowVideo
    then have ex: "(\<lambda>t. snd t = CallSetShowVideo) (timeouts s ! k)" by simp
    have suc: "Suc (length (filter (\<lambda>t. snd t = CallSetShowVideo) ?rest)) =
               length (filter (\<lambda>t. snd t = CallSetShowVideo) (timeouts s))"
      using True ex by (rule filter_remove_nth)
    have "filter (\<lambda>t. snd t = CallSetShowVideo) (timeouts s) \<noteq> []"
      using mem ex by (auto simp: filter_empty_conv)
    then have c: "step s = Complete"
      using assms by (auto simp: tidy_def)
    then have "length (filter (\<lambda>t. snd t = CallSetShowVideo) (timeouts s)) \<le> 1"
      using assms by (auto simp: tidy_def split: if_splits)
    with suc have z: "length (filter (\<lambda>t. snd t = CallSetShowVideo) ?rest) = 0"
      by linarith
    have "tidy (?s0\<lparr>showVideo := True\<rparr>)"
      using t0 c z unfolding tidy_def by (auto simp del: filter_append)
    then show ?thesis
      using True CallSetShowVideo by (simp add: fireTimeout_def runCallback_def)
  qed
qed

lemma tidy_handleScanSuccess:
  assumes "tidy s" "step s = LeftHand \<or> step s = RightHand"
  shows "tidy (handleScanSuccess cs s)"
proof -
  let ?s1 = "s\<lparr>scanning := False, detectionCount := 0\<rparr>"
  let ?s2 = "?s1\<lparr>handsDetected := (handsDetected ?s1)\<lparr>right := True\<rparr>, step := Complete\<rparr>"
  have q: "\<not> showVideo s" "filter (\<lambda>t. snd t = CallSetShowVideo) (timeouts s) = []"
    "drawingUtilsRef s"
    using assms by (auto simp: tidy_def)
  have a: "tidy ?s1" using assms(1) by (simp add: tidy_def)
  have b: "tidy (?s1\<lparr>handsDetected := (handsDetected ?s1)\<lparr>left := True\<rparr>, step := RightHand\<rparr>)"
    using assms q by (auto simp: tidy_def)
  have c: "tidy ?s2"
    using assms(1) q by (simp add: tidy_def)
  have "tidy (stopCamera cs ?s2)" using c by (rule tidy_stopCamera)
  moreover have "timeouts (stopCamera cs ?s2) = timeouts s"
    by (simp add: timeouts_stopCamera)
  moreover have "step (stopCamera cs ?s2) = Complete" "\<not> showVideo (stopCamera cs ?s2)"
    using q(1) by (simp_all add: stopCamera_def Let_def split: option.splits)
  ultimately have d: "tidy (setTimeout CallSetShowVideo 1000 (stopCamera cs ?s2))"
    using q(2) by (simp add: tidy_def setTimeout_def)
  show ?thesis
    using a b d by (simp add: handleScanSuccess_def Let_def)
qed

lemma onResults_tidy_shape:
  assumes "tidy s"
  shows "tidy (onResults r s) \<or>
         (\<exists>x c. onResults r s = setTimeout (CallHandleScanSuccess c) 0 x \<and> tidy x \<and>
              (stepRef s = LeftHand \<or> stepRef s = RightHand) \<and> step x = step s)"
proof -
  have t: "tidy (s\<lparr>detectionCount := n\<rparr>)" for n
    using assms by (simp add: tidy_def)
  show ?thesis
  proof (cases "canvasRef s \<and> drawingUtilsRef s \<and> handsFound r \<and>
      (stepRef s = LeftHand \<or> stepRef s = RightHand) \<and>
      detectionThreshold \<le> detectionCount s + 1")
    case True
    then have "onResults r s =
        setTimeout (CallHandleScanSuccess (handlerStream s)) 0 (s\<lparr>detectionCount := 0\<rparr>)"
      by (auto simp: onResults_def Let_def setTimeout_def)
    moreover have "step (s\<lparr>detectionCount := 0\<rparr>) = step s" by simp
    ultimately show ?thesis using t [of 0] True by blast
  next
    case False
    then have "onResults r s = s \<or> onResults r s = s\<lparr>detectionCount := 0\<rparr> \<or>
        onResults r s = s\<lparr>detectionCount := detectionCount s + 1\<rparr>"
      by (auto simp: onResults_def Let_def)
    then show ?thesis using t assms by auto
  qed
qed

lemma captureFrame_tidy_shape:
  assumes "tidy s"
  shows "tidy (captureFrame f s) \<or>
         (\<exists>x c. captureFrame f s = setTimeout (CallHandleScanSuccess c) 0 x \<and> tidy x \<and>
              (stepRef s = LeftHand \<or> stepRef s = RightHand) \<and> step x = step s)"
proof -
  have af: "tidy (x\<lparr>animationFrameRef := True\<rparr>)" if "tidy x" for x
    using that by (simp add: tidy_def)
  show ?thesis
  proof (cases "videoRef s \<and> handsRef s \<and> readyState f \<ge> 2")
    case False
    then have "captureFrame f s = s\<lparr>animationFrameRef := True\<rparr>"
      by (auto simp: captureFrame_def)
    then show ?thesis using af [OF assms] by simp
  next
    case True
    show ?thesis
    proof (cases "outcome f")
      case SendRejected
      have "tidy (s\<lparr>console := console s @ [''Error sending frame to hands:'']\<rparr>)"
        using assms by (simp add: tidy_def)
      from af [OF this] show ?thesis
        using True SendRejected by (simp add: captureFrame_def)
    next
      case (Results r)
      then have c: "captureFrame f s = (onResults r s)\<lparr>animationFrameRef := True\<rparr>"
        using True by (simp add: captureFrame_def)
      from onResults_tidy_shape [OF assms, of r] show ?thesis
      proof
        assume "tidy (onResults r s)"
        from af [OF this] show ?thesis by (simp add: c)
      next
        assume "\<exists>x c. onResults r s = setTimeout (CallHandleScanSuccess c) 0 x \<and> tidy x \<and>
              (stepRef s = LeftHand \<or> stepRef s = RightHand) \<and> step x = step s"
        then obtain x c where x: "onResults r s = setTimeout (CallHandleScanSuccess c) 0 x"
          "tidy x" "stepRef s = LeftHand \<or> stepRef s = RightHand" "step x = step s" by blast
        have "captureFrame f s =
            setTimeout (CallHandleScanSuccess c) 0 (x\<lparr>animationFrameRef := True\<rparr>)"
          by (simp add: c x(1) setTimeout_def)
        moreover have "tidy (x\<lparr>animationFrameRef := True\<rparr>)" using x(2) by (rule af)
        moreover have "step (x\<lparr>animationFrameRef := True\<rparr>) = step s" using x(4) by simp
        ultimately show ?thesis using x(3) by blast
      qed
    qed
  qed
qed

lemma shape_settle:
  assumes "stepRef s = step s"
    and "tidy d \<or>
         (\<exists>x c. d = setTimeout (CallHandleScanSuccess c) 0 x \<and> tidy x \<and>
              (stepRef s = LeftHand \<or> stepRef s = RightHand) \<and> step x = step s)"
  shows "orderly (settle d)"
  using assms(2)
proof
  assume "tidy d"
  then show ?thesis by (rule tidy_settle)
next
  assume "\<exists>x c. d = setTimeout (CallHandleScanSuccess c) 0 x \<and> tidy x \<and>
              (stepRef s = LeftHand \<or> stepRef s = RightHand) \<and> step x = step s"
  then obtain x c where x: "d = setTimeout (CallHandleScanSuccess c) 0 x" "tidy x"
    "stepRef s = LeftHand \<or> stepRef s = RightHand" "step x = step s" by blast
  have nz: "list_all (\<lambda>t. fst t \<noteq> 0) (timeouts x)"
    using x(2) by (simp add: tidy_def)
  have s1: "settle d = streamEffect (syncRefs (handleScanSuccess c x))"
    unfolding x(1) using nz by (rule settle_immediate)
  have "step x = LeftHand \<or> step x = RightHand"
    using x(3,4) assms(1) by simp
  with x(2) have "tidy (handleScanSuccess c x)" by (rule tidy_handleScanSuccess)
  then have "orderly (settle (handleScanSuccess c x))" by (rule tidy_settle)
  moreover have "settle (handleScanSuccess c x) =
      streamEffect (syncRefs (handleScanSuccess c x))"
    using \<open>tidy (handleScanSuccess c x)\<close> by (intro settle_quiet) (simp add: tidy_def)
  ultimately show ?thesis by (simp add: s1)
qed

lemma orderly_react:
  assumes "orderly s"
  shows "orderly (react e s)"
proof -
  have t: "tidy s" and sr: "stepRef s = step s"
    using assms by (simp_all add: orderly_def)
  show ?thesis
  proof (cases e)
    case (MediapipeLoad ok)
    then show ?thesis
      using t by (simp add: react_def dispatch_def tidy_settle tidy_loadMediapipe)
  next
    case (ClickScanHand cam)
    then show ?thesis
      using t by (simp add: react_def dispatch_def tidy_settle tidy_requestCameraPermission)
  next
    case ClickReset
    then show ?thesis
      using t by (auto simp: react_def dispatch_def tidy_settle tidy_resetScan)
  next
    case ClickBackHome
    then show ?thesis
      using t by (auto simp: react_def dispatch_def tidy_settle tidy_resetScan tidy_stopCamera)
  next
    case (Timeout k)
    then show ?thesis
      using t by (simp add: react_def dispatch_def tidy_settle tidy_fireTimeout)
  next
    case (Frame f)
    then show ?thesis
      using shape_settle [OF sr captureFrame_tidy_shape [OF t, of f]]
      by (simp add: react_def dispatch_def)
  next
    case (Observation r)
    then show ?thesis
      using shape_settle [OF sr onResults_tidy_shape [OF t, of r]]
      by (simp add: react_def dispatch_def)
  qed
qed

lemma orderly_initial: "orderly initial"
  by (simp add: orderly_def tidy_def initial_def)

lemma orderly_run: "orderly s \<Longrightarrow> orderly (run es s)"
  by (induction es arbitrary: s) (simp_all add: orderly_react)

lemma hand_step_processes:
  assumes "s = run es initial" "step s = LeftHand \<or> step s = RightHand"
  shows "settled s \<and> canvasRef s \<and> drawingUtilsRef s"
proof -
  have "orderly s"
    unfolding assms(1) using orderly_initial by (rule orderly_run)
  then show ?thesis
    using assms(2) by (auto simp: orderly_def tidy_def settled_def canvasRef_def)
qed

lemma sample_sessions:
  "awaitingLeft = run sessionStart initial"
  "midTally = run (sessionStart @ replicate 15 (Frame handFrame)) initial"
  "awaitingRight = run (sessionStart @ replicate 30 (Frame handFrame)) initial"
  "finished =
     run ((sessionStart @ replicate 30 (Frame handFrame)) @ replicate 30 (Frame handFrame))
       initial"
  by (simp_all only: awaitingLeft_def midTally_def awaitingRight_def finished_def run_append)

subsection \<open>One observation on a settled page\<close>

lemma observation_counts:
  assumes "settled s" "canvasRef s" "drawingUtilsRef s"
    and "step s = LeftHand \<or> step s = RightHand"
    and "handsFound r" "Suc (detectionCount s) < detectionThreshold"
  shows "react (Observation r) s = s\<lparr>detectionCount := Suc (detectionCount s)\<rparr>"
proof -
  have st: "stepRef s = LeftHand \<or> stepRef s = RightHand"
    using assms(1,4) by (simp add: settled_def)
  have "onResults r s = s\<lparr>detectionCount := Suc (detectionCount s)\<rparr>"
    using assms st by (auto simp: onResults_def Let_def)
  moreover have "settled (s\<lparr>detectionCount := Suc (detectionCount s)\<rparr>)"
    using assms(1) by (simp add: settled_def)
  ultimately show ?thesis
    by (simp add: react_def dispatch_def settle_settled)
qed

lemma observation_resets:
  assumes "settled s" "canvasRef s" "drawingUtilsRef s"
    and "step s = LeftHand \<or> step s = RightHand"
    and "\<not> handsFound r"
  shows "react (Observation r) s = s\<lparr>detectionCount := 0\<rparr>"
proof -
  have st: "stepRef s = LeftHand \<or> stepRef s = RightHand"
    using assms(1,4) by (simp add: settled_def)
  have "onResults r s = s\<lparr>detectionCount := 0\<rparr>"
    using assms st by (auto simp: onResults_def Let_def)
  moreover have "settled (s\<lparr>detectionCount := 0\<rparr>)"
    using assms(1) by (simp add: settled_def)
  ultimately show ?thesis
    by (simp add: react_def dispatch_def settle_settled)
qed

lemma observation_reaches_threshold:
  assumes "settled s" "canvasRef s" "drawingUtilsRef s"
    and "step s = LeftHand \<or> step s = RightHand"
    and "handsFound r" "detectionThreshold \<le> Suc (detectionCount s)"
  shows "react (Observation r) s =
           streamEffect
             (syncRefs (handleScanSuccess (handlerStream s) (s\<lparr>detectionCount := 0\<rparr>)))"
proof -
  have st: "stepRef s = LeftHand \<or> stepRef s = RightHand"
    using assms(1,4) by (simp add: settled_def)
  have nz: "list_all (\<lambda>t. fst t \<noteq> 0) (timeouts s)"
    using assms(1) by (simp add: settled_def)
  have "onResults r s =
      (setTimeout (CallHandleScanSuccess (handlerStream s)) 0 s)\<lparr>detectionCount := 0\<rparr>"
    using assms st by (auto simp: onResults_def Let_def)
  then show ?thesis
    using nz
    by (simp add: react_def dispatch_def settle_def setTimeout_def runCallback_def
        filter_immediate_none filter_keeps_all)
qed

lemma observations_count_up:
  assumes "settled s" "canvasRef s" "drawingUtilsRef s"
    and "step s = LeftHand \<or> step s = RightHand"
    and "list_all handsFound rs" "detectionCount s + length rs < detectionThreshold"
  shows "run (map Observation rs) s = s\<lparr>detectionCount := detectionCount s + length rs\<rparr>"
  using assms
proof (induction rs arbitrary: s)
  case Nil
  then show ?case by simp
next
  case (Cons r rs)
  let ?s1 = "s\<lparr>detectionCount := Suc (detectionCount s)\<rparr>"
  have first: "react (Observation r) s = ?s1"
    using Cons.prems by (intro observation_counts) simp_all
  have "run (map Observation rs) ?s1 =
          ?s1\<lparr>detectionCount := detectionCount ?s1 + length rs\<rparr>"
    using Cons.prems by (intro Cons.IH) (simp_all add: settled_def canvasRef_def)
  then show ?case
    by (simp add: first)
qed

subsection \<open>The tally stays below the threshold\<close>

lemma threshold_pos: "0 < detectionThreshold"
  by (simp add: detectionThreshold_def)

lemma detectionCount_stopCamera: "detectionCount (stopCamera b s) = detectionCount s"
  by (simp add: stopCamera_def Let_def split: option.splits)

lemma detectionCount_handleScanSuccess: "detectionCount (handleScanSuccess cs s) = 0"
  by (simp add: handleScanSuccess_def Let_def setTimeout_def detectionCount_stopCamera)

lemma detectionCount_runCallback:
  "detectionCount s < detectionThreshold \<Longrightarrow>
   detectionCount (runCallback cb s) < detectionThreshold"
  by (cases cb)
     (simp_all add: runCallback_def detectionCount_handleScanSuccess
        initializeHandDetection_def threshold_pos)

lemma detectionCount_runCallbacks:
  "detectionCount s < detectionThreshold \<Longrightarrow>
   detectionCount (runCallbacks cbs s) < detectionThreshold"
  by (induction cbs arbitrary: s) (simp_all add: detectionCount_runCallback)

lemma detectionCount_settle:
  "detectionCount s < detectionThreshold \<Longrightarrow>
   detectionCount (settle s) < detectionThreshold"
  by (simp add: settle_def syncRefs_def detectionCount_runCallbacks streamEffect_fields)

lemma detectionCount_onResults:
  "detectionCount s < detectionThreshold \<Longrightarrow>
   detectionCount (onResults r s) < detectionThreshold"
  by (simp add: onResults_def Let_def setTimeout_def detectionThreshold_def)

lemma detectionCount_captureFrame:
  "detectionCount s < detectionThreshold \<Longrightarrow>
   detectionCount (captureFrame f s) < detectionThreshold"
  by (cases "outcome f") (simp_all add: captureFrame_def detectionCount_onResults)

lemma detectionCount_requestCameraPermission:
  "detectionCount (requestCameraPermission cam s) = detectionCount s"
  by (simp add: requestCameraPermission_def Let_def setTimeout_def)

lemma detectionCount_resetScan: "detectionCount (resetScan s) = 0"
  by (simp add: resetScan_def)

lemma detectionCount_fireTimeout:
  "detectionCount s < detectionThreshold \<Longrightarrow>
   detectionCount (fireTimeout k s) < detectionThreshold"
  by (simp add: fireTimeout_def detectionCount_runCallback)

lemma detectionCount_dispatch:
  "detectionCount s < detectionThreshold \<Longrightarrow>
   detectionCount (dispatch e s) < detectionThreshold"
  by (cases e)
     (auto simp: dispatch_def loadMediapipe_def detectionCount_requestCameraPermission
        detectionCount_resetScan detectionCount_stopCamera detectionCount_fireTimeout
        detectionCount_captureFrame detectionCount_onResults threshold_pos)

lemma detectionCount_react:
  "detectionCount s < detectionThreshold \<Longrightarrow>
   detectionCount (react e s) < detectionThreshold"
  by (simp add: react_def detectionCount_settle detectionCount_dispatch)

lemma detectionCount_perform:
  "detectionCount s < detectionThreshold \<Longrightarrow>
   detectionCount (perform c s) < detectionThreshold"
  by (cases c)
     (auto simp: perform_def loadMediapipe_def detectionCount_requestCameraPermission
        detectionCount_resetScan detectionCount_stopCamera detectionCount_fireTimeout
        detectionCount_captureFrame detectionCount_onResults threshold_pos
        streamEffect_fields syncRefs_def)

lemma detectionCount_performAll:
  "detectionCount s < detectionThreshold \<Longrightarrow>
   detectionCount (performAll cs s) < detectionThreshold"
  by (induction cs arbitrary: s) (simp_all add: detectionCount_perform)

lemma updater_resets:
  assumes "canvasRef s" "drawingUtilsRef s" "stepRef s = LeftHand \<or> stepRef s = RightHand"
    and "handsFound r" "detectionThreshold \<le> detectionCount s + 1"
  shows "onResults r s =
           (setTimeout (CallHandleScanSuccess (handlerStream s)) 0 s)\<lparr>detectionCount := 0\<rparr>"
  using assms by (auto simp: onResults_def Let_def)

lemma detectionCount_run:
  "detectionCount s < detectionThreshold \<Longrightarrow>
   detectionCount (run es s) < detectionThreshold"
  by (induction es arbitrary: s) (simp_all add: detectionCount_react)

subsection \<open>Confirming a hand\<close>

lemma settled_thirty_confirm_left:
  assumes "settled s" "canvasRef s" "drawingUtilsRef s"
    and "step s = LeftHand" "detectionCount s = 0"
    and "handsDetected s = \<lparr>left = False, right = False\<rparr>"
    and "length rs = 30" "list_all handsFound rs"
  shows "left (handsDetected (run (map Observation rs) s)) \<and>
         step (run (map Observation rs) s) = RightHand \<and>
         detectionCount (run (map Observation rs) s) = 0 \<and>
         \<not> right (handsDetected (run (map Observation rs) s))"
proof -
  from assms(7) obtain ys y where rs: "rs = ys @ [y]" and len: "length ys = 29"
    using split_last [of rs 29] by auto
  have hy: "handsFound y" and hys: "list_all handsFound ys"
    using assms(8) rs by simp_all
  let ?s29 = "s\<lparr>detectionCount := detectionCount s + length ys\<rparr>"
  have r29: "run (map Observation ys) s = ?s29"
    using assms(1-5) hys len
    by (intro observations_count_up) (simp_all add: detectionThreshold_def)
  have last: "react (Observation y) ?s29 =
                streamEffect (syncRefs
                  (handleScanSuccess (handlerStream ?s29) (?s29\<lparr>detectionCount := 0\<rparr>)))"
    using assms(1-5) hy len
    by (intro observation_reaches_threshold)
       (simp_all add: settled_def canvasRef_def detectionThreshold_def)
  have ref: "handsDetectedRef s = \<lparr>left = False, right = False\<rparr>"
    using assms(1,6) by (simp add: settled_def)
  have "run (map Observation rs) s =
          streamEffect (syncRefs
            (handleScanSuccess (handlerStream s) (?s29\<lparr>detectionCount := 0\<rparr>)))"
    by (simp add: rs run_append r29 last)
  then show ?thesis
    using ref assms(6)
    by (simp add: streamEffect_fields syncRefs_def handleScanSuccess_def Let_def)
qed

lemma settled_twenty_nine_then_none:
  assumes "settled s" "canvasRef s" "drawingUtilsRef s"
    and "step s = LeftHand \<or> step s = RightHand" "detectionCount s = 0"
    and "length rs = 29" "list_all handsFound rs" "\<not> handsFound z"
  shows "detectionCount (run (map Observation rs) s) = 29 \<and>
         run (map Observation (rs @ [z])) s = s \<and>
         entities (run (map Observation (rs @ [z])) s) =
           (step s, 0, left (handsDetected s), right (handsDetected s))"
proof -
  let ?s29 = "s\<lparr>detectionCount := detectionCount s + length rs\<rparr>"
  have r29: "run (map Observation rs) s = ?s29"
    using assms(1-7) by (intro observations_count_up) (simp_all add: detectionThreshold_def)
  have "react (Observation z) ?s29 = ?s29\<lparr>detectionCount := 0\<rparr>"
    using assms(1-4,8) by (intro observation_resets) (simp_all add: settled_def canvasRef_def)
  then have "run (map Observation (rs @ [z])) s = s\<lparr>detectionCount := 0\<rparr>"
    by (simp add: run_append r29)
  then have same: "run (map Observation (rs @ [z])) s = s"
    using assms(5) by simp
  have count: "detectionCount (run (map Observation rs) s) = 29"
    using assms(5,6) by (simp add: r29)
  have ents: "entities (run (map Observation (rs @ [z])) s) =
                (step s, 0, left (handsDetected s), right (handsDetected s))"
    unfolding same using assms(5) by (simp add: entities_def)
  from count same ents show ?thesis by blast
qed

subsection \<open>One confirmation at a time\<close>

lemma handsDetected_stopCamera: "handsDetected (stopCamera b s) = handsDetected s"
  by (simp add: stopCamera_def Let_def split: option.splits)

lemma handsDetected_handleScanSuccess:
  "handsDetected (handleScanSuccess cs s) =
     (if \<not> left (handsDetectedRef s) then (handsDetected s)\<lparr>left := True\<rparr>
      else if \<not> right (handsDetectedRef s) then (handsDetected s)\<lparr>right := True\<rparr>
      else handsDetected s)"
  by (simp add: handleScanSuccess_def Let_def setTimeout_def handsDetected_stopCamera)

lemma onResults_shape:
  "(timeouts (onResults r s) = timeouts s \<and> handsDetected (onResults r s) = handsDetected s \<and>
    handsDetectedRef (onResults r s) = handsDetectedRef s) \<or>
   onResults r s =
     setTimeout (CallHandleScanSuccess (handlerStream s)) 0 (s\<lparr>detectionCount := 0\<rparr>)"
  by (simp add: onResults_def Let_def setTimeout_def)

lemma captureFrame_shape:
  "(timeouts (captureFrame f s) = timeouts s \<and>
    handsDetected (captureFrame f s) = handsDetected s \<and>
    handsDetectedRef (captureFrame f s) = handsDetectedRef s) \<or>
   captureFrame f s =
     setTimeout (CallHandleScanSuccess (handlerStream s)) 0
       (s\<lparr>detectionCount := 0, animationFrameRef := True\<rparr>)"
proof (cases "outcome f")
  case SendRejected
  then show ?thesis by (simp add: captureFrame_def)
next
  case (Results r)
  from onResults_shape [of r s] show ?thesis
  proof
    assume "timeouts (onResults r s) = timeouts s \<and>
      handsDetected (onResults r s) = handsDetected s \<and>
      handsDetectedRef (onResults r s) = handsDetectedRef s"
    then show ?thesis using Results by (simp add: captureFrame_def)
  next
    assume "onResults r s =
      setTimeout (CallHandleScanSuccess (handlerStream s)) 0 (s\<lparr>detectionCount := 0\<rparr>)"
    then show ?thesis using Results by (simp add: captureFrame_def setTimeout_def)
  qed
qed

lemma settle_confirms_once:
  assumes "settled s"
    and shape: "(timeouts d = timeouts s \<and> handsDetected d = handsDetected s \<and>
            handsDetectedRef d = handsDetectedRef s) \<or>
           (\<exists>x c. d = setTimeout (CallHandleScanSuccess c) 0 x \<and> timeouts x = timeouts s \<and>
              handsDetected x = handsDetected s \<and> handsDetectedRef x = handsDetectedRef s)"
  shows "handsDetected (settle d) = handsDetected s \<or>
         (\<not> left (handsDetected s) \<and>
          handsDetected (settle d) = (handsDetected s)\<lparr>left := True\<rparr>) \<or>
         (left (handsDetected s) \<and> \<not> right (handsDetected s) \<and>
          handsDetected (settle d) = (handsDetected s)\<lparr>right := True\<rparr>)"
proof -
  have nz: "list_all (\<lambda>t. fst t \<noteq> 0) (timeouts s)"
    and ref: "handsDetectedRef s = handsDetected s"
    using assms(1) by (simp_all add: settled_def)
  from shape show ?thesis
  proof
    assume a: "timeouts d = timeouts s \<and> handsDetected d = handsDetected s \<and>
            handsDetectedRef d = handsDetectedRef s"
    then have "settle d = streamEffect (syncRefs d)" using nz by (intro settle_quiet) simp
    then show ?thesis using a by (simp add: streamEffect_fields syncRefs_def)
  next
    assume "\<exists>x c. d = setTimeout (CallHandleScanSuccess c) 0 x \<and> timeouts x = timeouts s \<and>
              handsDetected x = handsDetected s \<and> handsDetectedRef x = handsDetectedRef s"
    then obtain x c where x: "d = setTimeout (CallHandleScanSuccess c) 0 x"
      "timeouts x = timeouts s"
      "handsDetected x = handsDetected s" "handsDetectedRef x = handsDetectedRef s" by blast
    have "settle d = streamEffect (syncRefs (handleScanSuccess c x))"
      unfolding x(1) using nz x(2) by (intro settle_immediate) simp
    then show ?thesis
      using x ref
      by (simp add: streamEffect_fields syncRefs_def handsDetected_handleScanSuccess)
  qed
qed

subsection \<open>A success when both hands are confirmed\<close>


subsection \<open>A rejected analysis\<close>

lemma settled_rejected_frame_is_skipped:
  assumes "settled s" "videoRef s" "handsRef s" "2 \<le> readyState f" "outcome f = SendRejected"
  shows "react (Frame f) s =
           s\<lparr>console := console s @ [''Error sending frame to hands:''],
             animationFrameRef := True\<rparr>"
proof -
  have c: "captureFrame f s =
             s\<lparr>console := console s @ [''Error sending frame to hands:''],
               animationFrameRef := True\<rparr>"
    using assms(2-5) by (simp add: captureFrame_def)
  have "settled (captureFrame f s)"
    using assms(1) by (simp add: c settled_def)
  then show ?thesis
    by (simp add: react_def dispatch_def settle_settled c)
qed

section \<open>The claims\<close>

text \<open>
  C1, as the code behaves. When \<open>hands.send\<close> rejects for a frame that was sent (the
  page is in a hand step, the detector exists, the video element is ready), in any state
  reached from the initial page, the rejection is caught: the message goes to
  \<open>console.error\<close> and the next frame is requested. Nothing else changes: the tally
  keeps its value (it is neither reset nor incremented), the step and the confirmations
  stay, and the \<open>error\<close> cell shown to the user is untouched.
\<close>

theorem rejected_frame_is_skipped:
  assumes "s = run es initial"
    and "step s = LeftHand \<or> step s = RightHand"
    and "handsRef s" "2 \<le> readyState f" "outcome f = SendRejected"
  shows "react (Frame f) s =
           s\<lparr>console := console s @ [''Error sending frame to hands:''],
             animationFrameRef := True\<rparr>"
proof -
  have "settled s \<and> canvasRef s \<and> drawingUtilsRef s"
    using assms(1,2) by (rule hand_step_processes)
  then have a: "settled s" "videoRef s"
    by (simp_all add: canvasRef_def videoRef_def)
  show ?thesis
    by (rule settled_rejected_frame_is_skipped [OF a assms(3-5)])
qed

theorem rejected_frame_is_skipped_witness:
  "step midTally = LeftHand \<and> detectionCount midTally = 15 \<and>
   react (Frame rejectedFrame) midTally =
     midTally\<lparr>console := console midTally @ [''Error sending frame to hands:''],
              animationFrameRef := True\<rparr>"
proof -
  have h: "step midTally = LeftHand \<or> step midTally = RightHand" "handsRef midTally"
    "2 \<le> readyState rejectedFrame" "outcome rejectedFrame = SendRejected"
    by code_simp+
  have m: "step midTally = LeftHand" "detectionCount midTally = 15"
    by code_simp+
  from m rejected_frame_is_skipped [OF sample_sessions(2) h]
  show ?thesis by (intro conjI)
qed

text \<open>
  C1 with a reset of the tally does not hold: in the left-hand step, after fifteen
  frames with a hand, a frame whose analysis is rejected leaves the tally at 15, where a
  result without a hand sets it to 0.
\<close>

theorem rejected_frame_keeps_tally:
  "step midTally = LeftHand \<and> detectionCount midTally = 15 \<and>
   console (react (Frame rejectedFrame) midTally) = [''Error sending frame to hands:''] \<and>
   detectionCount (react (Frame rejectedFrame) midTally) = 15 \<and>
   detectionCount (react (Frame rejectedFrame) midTally) \<noteq> 0 \<and>
   detectionCount (react (Observation (Some 0)) midTally) = 0"
  by code_simp

text \<open>
  C2. \<open>detectionCount\<close> is strictly below \<open>detectionThreshold\<close> after every sequence of
  single calls from the initial page (so also right after the detector callback, before
  any timeout has fired or any effect has run) and after every sequence of settled
  events. The updater itself resets: on any page on which the callback counts (canvas
  and drawing utilities there, \<open>stepRef\<close> in a hand step), a result with a hand whose
  increment would reach the threshold leaves the tally at 0 as the callback returns,
  with \<open>handleScanSuccess\<close> scheduled; in a state reached by settled events this holds
  in the two hand steps, and the tally is still 0 when the page has settled.
\<close>

theorem tally_below_threshold:
  "detectionCount (performAll cs initial) < detectionThreshold \<and>
   detectionCount (run es initial) < detectionThreshold \<and>
   (canvasRef s \<and> drawingUtilsRef s \<and> (stepRef s = LeftHand \<or> stepRef s = RightHand) \<and>
    handsFound r \<and> detectionThreshold \<le> detectionCount s + 1
    \<longrightarrow> detectionCount (onResults r s) = 0 \<and>
        timeouts (onResults r s) =
          timeouts s @ [(0, CallHandleScanSuccess (handlerStream s))]) \<and>
   ((step (run es initial) = LeftHand \<or> step (run es initial) = RightHand) \<and>
    handsFound r \<and> detectionThreshold \<le> detectionCount (run es initial) + 1
    \<longrightarrow> detectionCount (onResults r (run es initial)) = 0 \<and>
        detectionCount (react (Observation r) (run es initial)) = 0)"
proof -
  let ?s = "run es initial"
  have start: "detectionCount initial < detectionThreshold"
    by (simp add: initial_def detectionThreshold_def)
  then have calls: "detectionCount (performAll cs initial) < detectionThreshold"
    by (rule detectionCount_performAll)
  from start have below: "detectionCount ?s < detectionThreshold"
    by (rule detectionCount_run)
  have updater: "detectionCount (onResults r s) = 0 \<and>
      timeouts (onResults r s) = timeouts s @ [(0, CallHandleScanSuccess (handlerStream s))]"
    if "canvasRef s" "drawingUtilsRef s" "stepRef s = LeftHand \<or> stepRef s = RightHand"
      "handsFound r" "detectionThreshold \<le> detectionCount s + 1"
    by (simp add: updater_resets [OF that] setTimeout_def)
  have reached: "detectionCount (onResults r ?s) = 0 \<and>
      detectionCount (react (Observation r) ?s) = 0"
    if "step ?s = LeftHand \<or> step ?s = RightHand"
      "handsFound r" "detectionThreshold \<le> detectionCount ?s + 1"
  proof -
    have g: "settled ?s \<and> canvasRef ?s \<and> drawingUtilsRef ?s"
      using refl that(1) by (rule hand_step_processes)
    then have sr: "stepRef ?s = LeftHand \<or> stepRef ?s = RightHand"
      using that(1) by (simp add: settled_def)
    have "onResults r ?s =
        (setTimeout (CallHandleScanSuccess (handlerStream ?s)) 0 ?s)\<lparr>detectionCount := 0\<rparr>"
      using g sr that(2,3) by (intro updater_resets) simp_all
    then have a: "detectionCount (onResults r ?s) = 0"
      by simp
    have "react (Observation r) ?s =
            streamEffect
              (syncRefs (handleScanSuccess (handlerStream ?s) (?s\<lparr>detectionCount := 0\<rparr>)))"
      using g that by (intro observation_reaches_threshold) simp_all
    then have "detectionCount (react (Observation r) ?s) = 0"
      by (simp add: syncRefs_def detectionCount_handleScanSuccess streamEffect_fields)
    with a show ?thesis by simp
  qed
  from calls below updater reached show ?thesis by blast
qed

theorem tally_below_threshold_witness:
  "detectionCount (performAll (callsToLeft @ replicate 29 (OnResults (Some 1))) initial) = 29 \<and>
   detectionCount (performAll (callsToLeft @ replicate 30 (OnResults (Some 1))) initial) = 0 \<and>
   detectionCount (performAll (callsToLeft @ replicate 30 (OnResults (Some 1))) initial)
     < detectionThreshold \<and>
   detectionCount (run (sessionStart @ replicate 29 (Frame handFrame)) initial) = 29 \<and>
   detectionCount (run (sessionStart @ replicate 29 (Frame handFrame)) initial)
     < detectionThreshold \<and>
   detectionCount (onResults (Some 1) almostComplete) = 0 \<and>
   timeouts (onResults (Some 1) almostComplete) = [(0, CallHandleScanSuccess None)] \<and>
   detectionCount (react (Observation (Some 1))
     (run (sessionStart @ replicate 29 (Frame handFrame)) initial)) = 0"
proof -
  let ?es = "sessionStart @ replicate 29 (Frame handFrame)"
  let ?cs = "callsToLeft @ replicate 30 (OnResults (Some 1))"
  have c: "detectionCount (performAll (callsToLeft @ replicate 29 (OnResults (Some 1))) initial)
      = 29" "detectionCount (run ?es initial) = 29"
    "detectionCount (performAll ?cs initial) = 0"
    by code_simp+
  have h: "canvasRef almostComplete \<and> drawingUtilsRef almostComplete \<and>
        (stepRef almostComplete = LeftHand \<or> stepRef almostComplete = RightHand) \<and>
        handsFound (Some 1) \<and> detectionThreshold \<le> detectionCount almostComplete + 1"
    by code_simp
  have k: "(step (run ?es initial) = LeftHand \<or> step (run ?es initial) = RightHand) \<and>
        handsFound (Some 1) \<and> detectionThreshold \<le> detectionCount (run ?es initial) + 1"
    by code_simp
  have t: "timeouts almostComplete = []" "handlerStream almostComplete = None"
    by code_simp+
  note th = tally_below_threshold [of ?cs ?es almostComplete "Some 1"]
  from th have 1: "detectionCount (performAll ?cs initial) < detectionThreshold"
    by (elim conjE)
  from th have 2: "detectionCount (run ?es initial) < detectionThreshold"
    by (elim conjE)
  from th have i3: "canvasRef almostComplete \<and> drawingUtilsRef almostComplete \<and>
        (stepRef almostComplete = LeftHand \<or> stepRef almostComplete = RightHand) \<and>
        handsFound (Some 1) \<and> detectionThreshold \<le> detectionCount almostComplete + 1
      \<longrightarrow> detectionCount (onResults (Some 1) almostComplete) = 0 \<and>
          timeouts (onResults (Some 1) almostComplete) =
            timeouts almostComplete @ [(0, CallHandleScanSuccess (handlerStream almostComplete))]"
    by (elim conjE)
  from mp [OF i3 h] have 3: "detectionCount (onResults (Some 1) almostComplete) = 0"
    "timeouts (onResults (Some 1) almostComplete) =
       timeouts almostComplete @ [(0, CallHandleScanSuccess (handlerStream almostComplete))]"
    by (rule conjunct1, rule conjunct2)
  from th have i4: "(step (run ?es initial) = LeftHand \<or> step (run ?es initial) = RightHand) \<and>
        handsFound (Some 1) \<and> detectionThreshold \<le> detectionCount (run ?es initial) + 1
      \<longrightarrow> detectionCount (onResults (Some 1) (run ?es initial)) = 0 \<and>
          detectionCount (react (Observation (Some 1)) (run ?es initial)) = 0"
    by (elim conjE)
  from mp [OF i4 k] have 4: "detectionCount (react (Observation (Some 1)) (run ?es initial)) = 0"
    by (rule conjunct2)
  from 3(2) have 5: "timeouts (onResults (Some 1) almostComplete) =
      [(0, CallHandleScanSuccess None)]"
    by (simp add: t)
  from c(1) c(3) 1 c(2) 2 3(1) 5 4 show ?thesis by (intro conjI)
qed

text \<open>
  C3. With the threshold 30, in any state reached from the initial page that is in the
  left-hand step with tally 0 and no hand confirmed, thirty results in a row that each
  report one or more hands confirm the left hand, move the step to the right hand,
  leave the tally at 0 and leave the right hand unconfirmed.
\<close>

theorem thirty_observations_confirm_left:
  assumes "s = run es initial"
    and "step s = LeftHand" "detectionCount s = 0"
    and "handsDetected s = \<lparr>left = False, right = False\<rparr>"
    and "length rs = 30" "list_all handsFound rs"
  shows "left (handsDetected (run (map Observation rs) s)) \<and>
         step (run (map Observation rs) s) = RightHand \<and>
         detectionCount (run (map Observation rs) s) = 0 \<and>
         \<not> right (handsDetected (run (map Observation rs) s))"
proof -
  have "settled s \<and> canvasRef s \<and> drawingUtilsRef s"
    using assms(1,2) by (intro hand_step_processes) simp_all
  then have a: "settled s" "canvasRef s" "drawingUtilsRef s"
    by simp_all
  show ?thesis
    by (rule settled_thirty_confirm_left [OF a assms(2-6)])
qed

theorem thirty_observations_confirm_left_witness:
  "step awaitingLeft = LeftHand \<and>
   left (handsDetected (run (map Observation (replicate 30 (Some 1))) awaitingLeft)) \<and>
   step (run (map Observation (replicate 30 (Some 1))) awaitingLeft) = RightHand \<and>
   detectionCount (run (map Observation (replicate 30 (Some 1))) awaitingLeft) = 0 \<and>
   \<not> right (handsDetected (run (map Observation (replicate 30 (Some 1))) awaitingLeft))"
proof -
  have h: "step awaitingLeft = LeftHand" "detectionCount awaitingLeft = 0"
    "handsDetected awaitingLeft = \<lparr>left = False, right = False\<rparr>"
    by code_simp+
  have l: "length (replicate 30 (Some (1::nat))) = 30"
    "list_all handsFound (replicate 30 (Some 1))"
    by code_simp+
  from h(1) thirty_observations_confirm_left [OF sample_sessions(1) h l]
  show ?thesis by (intro conjI) (elim conjE, assumption)+
qed

text \<open>
  C4, on the ordinary session (library loaded, "Scan Hand" clicked, camera granted,
  detector initialised, thirty frames with a hand for the left hand, thirty more for the
  right hand). The right hand is confirmed and the step is complete; \<open>stopCamera\<close> has
  forgotten the detector, cancelled the requested frame and taken the source from the
  video element; one reveal is pending, and when it fires the video is shown and no
  timeout is left. But the \<open>stopCamera\<close> that ran is the one of the render in which
  "Scan Hand" was clicked, which sees no stream: the \<open>stream\<close> cell still holds the
  stream and its tracks are live, where \<open>resetScan\<close> on the same page clears the cell
  and stops them. And before the effects of the commit have run, a result that was in
  flight is still counted.
\<close>

theorem completion_leaves_camera_live:
  "step awaitingRight = RightHand \<and> handlerStream awaitingRight = None \<and>
   stream awaitingRight = Some 0 \<and> liveTracks awaitingRight = [0] \<and>
   entities finished = (Complete, 0, True, True) \<and>
   \<not> handsRef finished \<and> \<not> animationFrameRef finished \<and> videoSrcObject finished = None \<and>
   timeouts finished = [(1000, CallSetShowVideo)] \<and> \<not> showVideo finished \<and>
   showVideo (react (Timeout 0) finished) \<and> timeouts (react (Timeout 0) finished) = [] \<and>
   stream finished = Some 0 \<and> liveTracks finished = [0] \<and>
   stream (resetScan finished) = None \<and> liveTracks (resetScan finished) = [] \<and>
   entities justCompleted = (Complete, 0, True, True) \<and>
   entities (onResults (Some 1) justCompleted) = (Complete, 1, True, True)"
  by code_simp

text \<open>
  The guard of the detector callback passes on that page (the canvas is mounted, the
  drawing utilities are loaded), so the late result is really processed.
\<close>

theorem completion_leaves_camera_live_witness:
  "canvasRef justCompleted \<and> drawingUtilsRef justCompleted \<and>
   stream finished = Some 0 \<and> liveTracks finished = [0] \<and>
   entities (onResults (Some 1) justCompleted) = (Complete, 1, True, True)"
proof -
  have g: "canvasRef justCompleted" "drawingUtilsRef justCompleted"
    by code_simp+
  note th = completion_leaves_camera_live
  from th have 1: "stream finished = Some 0" by (elim conjE)
  from th have 2: "liveTracks finished = [0]" by (elim conjE)
  from th have 3: "entities (onResults (Some 1) justCompleted) = (Complete, 1, True, True)"
    by (elim conjE)
  from g 1 2 3 show ?thesis by (intro conjI)
qed

text \<open>
  C5. With the threshold 30, in any state reached from the initial page that is in a
  hand step with tally 0: twenty-nine results with a hand bring the tally to 29, and a
  following result without a hand brings the page back to where it started, so the
  tally is 0 and the step and both confirmations are as before.
\<close>

theorem twenty_nine_then_none_resets:
  assumes "s = run es initial"
    and "step s = LeftHand \<or> step s = RightHand" "detectionCount s = 0"
    and "length rs = 29" "list_all handsFound rs" "\<not> handsFound z"
  shows "detectionCount (run (map Observation rs) s) = 29 \<and>
         run (map Observation (rs @ [z])) s = s \<and>
         entities (run (map Observation (rs @ [z])) s) =
           (step s, 0, left (handsDetected s), right (handsDetected s))"
proof -
  have "settled s \<and> canvasRef s \<and> drawingUtilsRef s"
    using assms(1,2) by (rule hand_step_processes)
  then have a: "settled s" "canvasRef s" "drawingUtilsRef s"
    by simp_all
  show ?thesis
    by (rule settled_twenty_nine_then_none [OF a assms(2-6)])
qed

theorem twenty_nine_then_none_resets_witness:
  "detectionCount (run (map Observation (replicate 29 (Some 1))) awaitingLeft) = 29 \<and>
   run (map Observation (replicate 29 (Some 1) @ [Some 0])) awaitingLeft = awaitingLeft \<and>
   entities (run (map Observation (replicate 29 (Some 1) @ [Some 0])) awaitingLeft) =
     (LeftHand, 0, False, False)"
proof -
  have h: "step awaitingLeft = LeftHand \<or> step awaitingLeft = RightHand"
    "detectionCount awaitingLeft = 0"
    by code_simp+
  have l: "length (replicate 29 (Some (1::nat))) = 29"
    "list_all handsFound (replicate 29 (Some 1))" "\<not> handsFound (Some 0)"
    by code_simp+
  have e: "step awaitingLeft = LeftHand" "left (handsDetected awaitingLeft) = False"
    "right (handsDetected awaitingLeft) = False"
    by code_simp+
  from twenty_nine_then_none_resets [OF sample_sessions(1) h l, unfolded e]
  show ?thesis .
qed

text \<open>
  C6, on the page on which \<open>handleScanSuccess\<close> has just completed the scan and the
  effects of the commit have not run yet: the step is complete, but \<open>stepRef\<close>, which
  the detector callback reads, still says right hand, so a result with a hand that was
  in flight raises the tally from 0 to 1. Once the effects have run (the page is then
  \<open>finished\<close>) the same result changes nothing.
\<close>

theorem late_result_counts_before_effects:
  "step justCompleted = Complete \<and> stepRef justCompleted = RightHand \<and>
   entities justCompleted = (Complete, 0, True, True) \<and>
   entities (onResults (Some 1) justCompleted) = (Complete, 1, True, True) \<and>
   entities (perform (OnResults (Some 1)) justCompleted) \<noteq> entities justCompleted \<and>
   perform RunEffects justCompleted = finished \<and>
   onResults (Some 1) finished = finished"
  by code_simp

text \<open>
  The guard of the detector callback passes on that page (the canvas is mounted, the
  drawing utilities are loaded): the result is counted because of \<open>stepRef\<close> alone.
\<close>

theorem late_result_counts_before_effects_witness:
  "canvasRef justCompleted \<and> drawingUtilsRef justCompleted \<and>
   step justCompleted = Complete \<and> stepRef justCompleted = RightHand \<and>
   entities (onResults (Some 1) justCompleted) = (Complete, 1, True, True)"
proof -
  have g: "canvasRef justCompleted" "drawingUtilsRef justCompleted"
    by code_simp+
  note th = late_result_counts_before_effects
  from th have 1: "step justCompleted = Complete" by (elim conjE)
  from th have 2: "stepRef justCompleted = RightHand" by (elim conjE)
  from th have 3: "entities (onResults (Some 1) justCompleted) = (Complete, 1, True, True)"
    by (elim conjE)
  from g 1 2 3 show ?thesis by (intro conjI)
qed

text \<open>
  C7. In every state reached from the initial page by a sequence of events, processing
  one detector result (delivered directly or through a turn of the frame loop) never
  changes both confirmations, and the right hand becomes confirmed only if the left hand
  was confirmed before that result.
\<close>

theorem one_confirmation_per_observation:
  assumes "e = Observation r \<or> e = Frame f"
  shows "\<not> (left (handsDetected (react e (run es initial))) \<noteq>
              left (handsDetected (run es initial)) \<and>
            right (handsDetected (react e (run es initial))) \<noteq>
              right (handsDetected (run es initial))) \<and>
         (right (handsDetected (react e (run es initial))) \<and>
          \<not> right (handsDetected (run es initial))
          \<longrightarrow> left (handsDetected (run es initial)))"
proof -
  let ?s = "run es initial"
  have st: "settled ?s"
    by (rule settled_run) (rule settled_initial)
  have shape: "(timeouts (dispatch e ?s) = timeouts ?s \<and>
            handsDetected (dispatch e ?s) = handsDetected ?s \<and>
            handsDetectedRef (dispatch e ?s) = handsDetectedRef ?s) \<or>
           (\<exists>x c. dispatch e ?s = setTimeout (CallHandleScanSuccess c) 0 x \<and>
              timeouts x = timeouts ?s \<and>
              handsDetected x = handsDetected ?s \<and> handsDetectedRef x = handsDetectedRef ?s)"
    using assms
  proof
    assume "e = Observation r"
    then show ?thesis using onResults_shape [of r ?s] by (auto simp: dispatch_def)
  next
    assume "e = Frame f"
    then show ?thesis using captureFrame_shape [of f ?s] by (auto simp: dispatch_def)
  qed
  from settle_confirms_once [OF st shape] show ?thesis
    by (auto simp: react_def)
qed

theorem one_confirmation_per_observation_witness:
  "left (handsDetected (react (Frame handFrame)
      (run (sessionStart @ replicate 29 (Frame handFrame)) initial))) \<noteq>
   left (handsDetected (run (sessionStart @ replicate 29 (Frame handFrame)) initial)) \<and>
   right (handsDetected (react (Frame handFrame)
      (run (sessionStart @ replicate 29 (Frame handFrame)) initial))) =
   right (handsDetected (run (sessionStart @ replicate 29 (Frame handFrame)) initial))"
proof -
  let ?es = "sessionStart @ replicate 29 (Frame handFrame)"
  have e: "Frame handFrame = Observation None \<or> Frame handFrame = Frame handFrame"
    by simp
  have l: "left (handsDetected (react (Frame handFrame) (run ?es initial))) \<noteq>
           left (handsDetected (run ?es initial))"
    by code_simp
  from one_confirmation_per_observation [OF e, of ?es] l
  show ?thesis by blast
qed

text \<open>
  C8. \<open>resetScan\<close>, called on any page whatever, leaves the step idle, the tally 0 and
  both confirmations false: the values of the initial page.
\<close>

theorem reset_restores_initial_entities:
  "entities (resetScan s) = (Idle, 0, False, False) \<and>
   entities (resetScan s) = entities initial"
  by (simp add: entities_def resetScan_def initial_def)

theorem reset_restores_initial_entities_witness:
  "entities (resetScan finished) = (Idle, 0, False, False)"
  by (rule conjunct1 [OF reset_restores_initial_entities])

text \<open>
  C9. When \<open>requestCameraPermission\<close> runs before the detection library has loaded, it
  only sets the error message "Please wait, loading hand detection library...": the
  step, the tally, both confirmations, the stream, the tracks and the pending timeouts
  are those of the page before the call, whatever the camera would have answered.
\<close>

theorem not_loaded_refuses_session:
  assumes "\<not> mediapipeLoaded s"
  shows "requestCameraPermission cam s =
           s\<lparr>error := ''Please wait, loading hand detection library...''\<rparr>"
  using assms by (simp add: requestCameraPermission_def)

theorem not_loaded_refuses_session_witness:
  "\<not> mediapipeLoaded initial \<and> step initial = Idle \<and>
   requestCameraPermission Granted initial =
     initial\<lparr>error := ''Please wait, loading hand detection library...''\<rparr>"
proof -
  have h: "\<not> mediapipeLoaded initial"
    by (simp add: initial_def)
  have i: "step initial = Idle"
    by (simp add: initial_def)
  from h i not_loaded_refuses_session [OF h, of Granted]
  show ?thesis by (intro conjI)
qed



end
